theory Spec2Isabelle
  imports Main "HOL-Library.Product_Lexorder"
begin

section \<open>Data model of check\_arlo\_mode.py\<close>

text \<open>
  Python strings are modelled as \<open>string\<close>; every \<open>char\<close> is read as one code point
  in the range 0..255. Python integers are \<open>int\<close>. Every exception the code can raise is
  a value of \<open>error\<close>, and a function that may raise returns \<open>error + 'a\<close>.
\<close>

datatype error =
    NoSectionError
  | NoOptionError
  | ValueError
  | OverflowError
  | RuntimeError string
  | HeaderWriteError
  | SMTPException

text \<open>
  A naive \<open>datetime.datetime\<close>: its seven fields. Two naive datetimes are compared as
  the tuples of their fields, in this order.
\<close>

record datetime =
  year :: int
  month :: int
  day :: int
  hour :: int
  minute :: int
  second :: int
  microsecond :: int

definition dt_key :: "datetime \<Rightarrow> int \<times> int \<times> int \<times> int \<times> int \<times> int \<times> int" where
  "dt_key d = (year d, month d, day d, hour d, minute d, second d, microsecond d)"

definition dt_le :: "datetime \<Rightarrow> datetime \<Rightarrow> bool" where
  "dt_le a b \<longleftrightarrow> dt_key a \<le> dt_key b"

definition dt_less :: "datetime \<Rightarrow> datetime \<Rightarrow> bool" where
  "dt_less a b \<longleftrightarrow> dt_key a < dt_key b"

definition dt_eq :: "datetime \<Rightarrow> datetime \<Rightarrow> bool" where
  "dt_eq a b \<longleftrightarrow> dt_key a = dt_key b"

text \<open>
  \<^verbatim>\<open>ScheduleEntry = namedtuple("ScheduleEntry", field_names=['mode', 'start', 'end'])\<close>
  (the field \<open>end\<close> is written \<open>end'\<close>).
\<close>

record ScheduleEntry =
  mode :: string
  start :: datetime
  end' :: datetime

text \<open>
  The \<open>RawConfigParser\<close> object, as the two methods the program calls on it:
  \<open>config.get(section, option)\<close> and \<open>config.getint(section, option)\<close>, each returning
  a value or raising.
\<close>

record config =
  get :: "string \<Rightarrow> string \<Rightarrow> error + string"
  getint :: "string \<Rightarrow> string \<Rightarrow> error + int"

section \<open>String operations\<close>

text \<open>
  \<open>str.isspace\<close> on the code points below 256; \<open>str.strip()\<close> removes such characters
  from both ends; \<open>s.split(sep)\<close> for a one-character separator; \<open>sep.join(xs)\<close>;
  \<open>str.lower()\<close> on the code points below 256 (A..Z and the Latin-1 capitals).
\<close>

definition isspace :: "char \<Rightarrow> bool" where
  "isspace c \<longleftrightarrow> (of_char c :: nat) \<in> {9, 10, 11, 12, 13, 28, 29, 30, 31, 32, 133, 160}"

definition lstrip :: "string \<Rightarrow> string" where
  "lstrip s = dropWhile isspace s"

definition rstrip :: "string \<Rightarrow> string" where
  "rstrip s = rev (dropWhile isspace (rev s))"

definition strip :: "string \<Rightarrow> string" where
  "strip s = rstrip (lstrip s)"

fun split :: "string \<Rightarrow> char \<Rightarrow> string list" where
  "split [] sep = [[]]"
| "split (c # cs) sep =
     (if c = sep then [] # split cs sep
      else (let pieces = split cs sep in (c # hd pieces) # tl pieces))"

fun join :: "string \<Rightarrow> string list \<Rightarrow> string" where
  "join sep [] = []"
| "join sep [x] = x"
| "join sep (x # y # ys) = x @ sep @ join sep (y # ys)"

definition char_lower :: "char \<Rightarrow> char" where
  "char_lower c =
     (let n = (of_char c :: nat)
      in if (65 \<le> n \<and> n \<le> 90) \<or> (192 \<le> n \<and> n \<le> 222 \<and> n \<noteq> 215) then char_of (n + 32) else c)"

definition lower :: "string \<Rightarrow> string" where
  "lower s = map char_lower s"

section \<open>datetime.strptime\<close>

text \<open>
  \<^verbatim>\<open>__fmt_12 = '%I:%M %p'\<close> and \<^verbatim>\<open>__fmt_24 = '%H:%m'\<close> (a name cannot start with an
  underscore here).
\<close>

definition fmt_12 :: string where
  "fmt_12 = ''%I:%M %p''"

definition fmt_24 :: string where
  "fmt_24 = ''%H:%m''"

text \<open>
  \<open>strptime\<close> turns the format into a regular expression, matches it at the start of the
  data string ignoring case, and raises \<open>ValueError\<close> when there is no match or when data
  remains after the match. Only the directives of the two formats above are modelled:
  \<^item> \<open>%H\<close> is \<^verbatim>\<open>2[0-3]|[0-1]\d|\d\<close>,
  \<^item> \<open>%I\<close> and \<open>%m\<close> are \<^verbatim>\<open>1[0-2]|0[1-9]|[1-9]\<close>,
  \<^item> \<open>%M\<close> is \<^verbatim>\<open>[0-5]\d|\d\<close>,
  \<^item> \<open>%p\<close> is \<^verbatim>\<open>am|pm\<close> (the C locale),
  \<^item> a run of whitespace in the format is \<^verbatim>\<open>\s+\<close>, any other character stands for itself.
  \<open>item_alts\<close> lists what one item can match at the start of a string, in the order
  in which a backtracking matcher tries the alternatives; \<open>regex_match\<close> returns the first
  way to match the whole pattern, with the text of every item and the unmatched rest.
\<close>

datatype directive = Dir_H | Dir_I | Dir_M | Dir_m | Dir_p

datatype pattern_item = Group directive | Lit char | Spaces

fun directive_of :: "char \<Rightarrow> directive option" where
  "directive_of c =
     (if c = CHR ''H'' then Some Dir_H
      else if c = CHR ''I'' then Some Dir_I
      else if c = CHR ''M'' then Some Dir_M
      else if c = CHR ''m'' then Some Dir_m
      else if c = CHR ''p'' then Some Dir_p
      else None)"

function pattern :: "string \<Rightarrow> pattern_item list option" where
  "pattern [] = Some []"
| "pattern (c # cs) =
     (if c = CHR ''%'' then
        (case cs of
           [] \<Rightarrow> None
         | d # ds \<Rightarrow>
             (case directive_of d of
                None \<Rightarrow> None
              | Some g \<Rightarrow> map_option ((#) (Group g)) (pattern ds)))
      else if isspace c then map_option ((#) Spaces) (pattern (dropWhile isspace cs))
      else map_option ((#) (Lit c)) (pattern cs))"
  by pat_completeness auto
termination
  by (relation "measure length") (auto simp: le_imp_less_Suc length_dropWhile_le)

definition is_digit :: "char \<Rightarrow> bool" where
  "is_digit c \<longleftrightarrow> c \<in> set ''0123456789''"

definition digit_value :: "char \<Rightarrow> int" where
  "digit_value c = int (of_char c) - 48"

definition int_of_digits :: "string \<Rightarrow> int" where
  "int_of_digits s = foldl (\<lambda>acc c. 10 * acc + digit_value c) 0 s"

definition one_char :: "(char \<Rightarrow> bool) \<Rightarrow> string \<Rightarrow> (string \<times> string) list" where
  "one_char p s = (case s of a # rest \<Rightarrow> if p a then [([a], rest)] else [] | _ \<Rightarrow> [])"

definition two_chars :: "(char \<Rightarrow> bool) \<Rightarrow> (char \<Rightarrow> bool) \<Rightarrow> string \<Rightarrow> (string \<times> string) list" where
  "two_chars p q s =
     (case s of a # b # rest \<Rightarrow> if p a \<and> q b then [([a, b], rest)] else [] | _ \<Rightarrow> [])"

definition same_letter :: "char \<Rightarrow> char \<Rightarrow> bool" where
  "same_letter c x \<longleftrightarrow> char_lower x = char_lower c"

fun item_alts :: "pattern_item \<Rightarrow> string \<Rightarrow> (string \<times> string) list" where
  "item_alts (Group Dir_H) s =
     two_chars (\<lambda>c. c = CHR ''2'') (\<lambda>c. c \<in> set ''0123'') s
     @ two_chars (\<lambda>c. c \<in> set ''01'') is_digit s
     @ one_char is_digit s"
| "item_alts (Group Dir_I) s =
     two_chars (\<lambda>c. c = CHR ''1'') (\<lambda>c. c \<in> set ''012'') s
     @ two_chars (\<lambda>c. c = CHR ''0'') (\<lambda>c. c \<in> set ''123456789'') s
     @ one_char (\<lambda>c. c \<in> set ''123456789'') s"
| "item_alts (Group Dir_m) s =
     two_chars (\<lambda>c. c = CHR ''1'') (\<lambda>c. c \<in> set ''012'') s
     @ two_chars (\<lambda>c. c = CHR ''0'') (\<lambda>c. c \<in> set ''123456789'') s
     @ one_char (\<lambda>c. c \<in> set ''123456789'') s"
| "item_alts (Group Dir_M) s =
     two_chars (\<lambda>c. c \<in> set ''012345'') is_digit s
     @ one_char is_digit s"
| "item_alts (Group Dir_p) s =
     two_chars (same_letter CHR ''a'') (same_letter CHR ''m'') s
     @ two_chars (same_letter CHR ''p'') (same_letter CHR ''m'') s"
| "item_alts (Lit c) s = one_char (same_letter c) s"
| "item_alts Spaces s =
     map (\<lambda>k. (take k s, drop k s)) (rev [1 ..< Suc (length (takeWhile isspace s))])"

fun first_some :: "('a \<Rightarrow> 'b option) \<Rightarrow> 'a list \<Rightarrow> 'b option" where
  "first_some f [] = None"
| "first_some f (x # xs) = (case f x of Some y \<Rightarrow> Some y | None \<Rightarrow> first_some f xs)"

fun regex_match :: "pattern_item list \<Rightarrow> string \<Rightarrow> ((pattern_item \<times> string) list \<times> string) option" where
  "regex_match [] s = Some ([], s)"
| "regex_match (item # items) s =
     first_some
       (\<lambda>(matched, rest).
          case regex_match items rest of
            None \<Rightarrow> None
          | Some (found, unconverted) \<Rightarrow> Some ((item, matched) # found, unconverted))
       (item_alts item s)"

text \<open>
  The conversion of the matched groups: \<open>%m\<close> sets the month, \<open>%H\<close> the hour, \<open>%M\<close> the
  minute; \<open>%I\<close> sets the hour from the 12-hour value and the text matched by \<open>%p\<close>
  (\<open>found_dict.get('p', '').lower()\<close>). The fields not set keep their defaults: year 1900,
  month 1, day 1, and 0 for the time.
\<close>

definition found_get :: "(pattern_item \<times> string) list \<Rightarrow> directive \<Rightarrow> string \<Rightarrow> string" where
  "found_get found_dict g dflt = (case map_of found_dict (Group g) of None \<Rightarrow> dflt | Some v \<Rightarrow> v)"

fun convert_group :: "(pattern_item \<times> string) list \<Rightarrow> datetime \<Rightarrow> pattern_item \<times> string \<Rightarrow> datetime" where
  "convert_group found_dict d (Group Dir_m, matched) = d\<lparr>month := int_of_digits matched\<rparr>"
| "convert_group found_dict d (Group Dir_H, matched) = d\<lparr>hour := int_of_digits matched\<rparr>"
| "convert_group found_dict d (Group Dir_I, matched) =
     (let hour_12 = int_of_digits matched;
          ampm = lower (found_get found_dict Dir_p [])
      in if ampm = [] \<or> ampm = ''am'' then d\<lparr>hour := (if hour_12 = 12 then 0 else hour_12)\<rparr>
         else if ampm = ''pm'' then d\<lparr>hour := (if hour_12 \<noteq> 12 then hour_12 + 12 else hour_12)\<rparr>
         else d\<lparr>hour := hour_12\<rparr>)"
| "convert_group found_dict d (Group Dir_M, matched) = d\<lparr>minute := int_of_digits matched\<rparr>"
| "convert_group found_dict d (Group Dir_p, matched) = d"
| "convert_group found_dict d (Lit c, matched) = d"
| "convert_group found_dict d (Spaces, matched) = d"

definition strptime :: "string \<Rightarrow> string \<Rightarrow> error + datetime" where
  "strptime data_string format =
     (case pattern format of
        None \<Rightarrow> Inl ValueError
      | Some format_regex \<Rightarrow>
          (case regex_match format_regex data_string of
             None \<Rightarrow> Inl ValueError
           | Some (found_dict, unconverted) \<Rightarrow>
               if unconverted \<noteq> [] then Inl ValueError
               else Inr (foldl (convert_group found_dict)
                          \<lparr>year = 1900, month = 1, day = 1, hour = 0, minute = 0,
                           second = 0, microsecond = 0\<rparr>
                          found_dict)))"

section \<open>Calendar arithmetic\<close>

text \<open>
  \<open>end + timedelta(days=1)\<close> adds one to the proleptic Gregorian ordinal of the date and
  keeps the time of day; it raises \<open>OverflowError\<close> when the ordinal leaves the range
  1..3652059 (the last day is 9999-12-31). \<open>next_date\<close> is the date whose ordinal is one
  more (lemma \<open>toordinal_next_date\<close>).
\<close>

definition is_leap :: "int \<Rightarrow> bool" where
  "is_leap y \<longleftrightarrow> y mod 4 = 0 \<and> (y mod 100 \<noteq> 0 \<or> y mod 400 = 0)"

definition days_in_month :: "int \<Rightarrow> int \<Rightarrow> int" where
  "days_in_month y m =
     (if m = 2 then (if is_leap y then 29 else 28)
      else if m = 4 \<or> m = 6 \<or> m = 9 \<or> m = 11 then 30
      else 31)"

definition days_before_year :: "int \<Rightarrow> int" where
  "days_before_year y = (y - 1) * 365 + (y - 1) div 4 - (y - 1) div 100 + (y - 1) div 400"

definition days_before_month :: "int \<Rightarrow> int \<Rightarrow> int" where
  "days_before_month y m =
     [0, 0, 31, 59, 90, 120, 151, 181, 212, 243, 273, 304, 334] ! nat m
     + (if m > 2 \<and> is_leap y then 1 else 0)"

definition toordinal :: "datetime \<Rightarrow> int" where
  "toordinal d = days_before_year (year d) + days_before_month (year d) (month d) + day d"

definition MAXORDINAL :: int where
  "MAXORDINAL = 3652059"

definition valid_datetime :: "datetime \<Rightarrow> bool" where
  "valid_datetime d \<longleftrightarrow>
     1 \<le> year d \<and> year d \<le> 9999 \<and> 1 \<le> month d \<and> month d \<le> 12
     \<and> 1 \<le> day d \<and> day d \<le> days_in_month (year d) (month d)
     \<and> 0 \<le> hour d \<and> hour d \<le> 23 \<and> 0 \<le> minute d \<and> minute d \<le> 59
     \<and> 0 \<le> second d \<and> second d \<le> 59 \<and> 0 \<le> microsecond d \<and> microsecond d \<le> 999999"

definition next_date :: "datetime \<Rightarrow> datetime" where
  "next_date d =
     (if day d < days_in_month (year d) (month d) then d\<lparr>day := day d + 1\<rparr>
      else if month d < 12 then d\<lparr>month := month d + 1, day := 1\<rparr>
      else d\<lparr>year := year d + 1, month := 1, day := 1\<rparr>)"

definition plus_one_day :: "datetime \<Rightarrow> error + datetime" where
  "plus_one_day d =
     (let days = toordinal d + 1
      in if 0 < days \<and> days \<le> MAXORDINAL then Inr (next_date d) else Inl OverflowError)"

section \<open>build\_schedule\<close>

text \<open>
  Lines 79-82: the list of entry names. \<open>entries\<close> is the configured string after
  \<open>.strip()\<close> (line 76).
\<close>

definition entry_names :: "string \<Rightarrow> string list" where
  "entry_names entries =
     (if CHR '','' \<in> set entries then map strip (split entries CHR '','') else [entries])"

text \<open>Lines 84-87: the format is \<open>__fmt_12\<close> unless \<open>clock_type == 24\<close>.\<close>

definition select_fmt :: "int \<Rightarrow> string" where
  "select_fmt clock_type = (if clock_type = 24 then fmt_24 else fmt_12)"

text \<open>
  Line 90: \<open>now.replace(hour=0, minute=0, second=0, microsecond=0)\<close>; lines 101-102:
  \<open>t.replace(year=now.year, month=now.month, day=now.day, second=0, microsecond=0)\<close>;
  lines 105-106: the rollover of an \<open>end\<close> equal to the start of the day.
\<close>

definition start_of_day :: "datetime \<Rightarrow> datetime" where
  "start_of_day now = now\<lparr>hour := 0, minute := 0, second := 0, microsecond := 0\<rparr>"

definition replace_date :: "datetime \<Rightarrow> datetime \<Rightarrow> datetime" where
  "replace_date t now =
     t\<lparr>year := year now, month := month now, day := day now, second := 0, microsecond := 0\<rparr>"

definition rollover :: "datetime \<Rightarrow> datetime \<Rightarrow> error + datetime" where
  "rollover end_v now = (if dt_eq end_v (start_of_day now) then plus_one_day end_v else Inr end_v)"

text \<open>
  The body of the loop (lines 95-112) for one entry name, the loop (lines 94-114), which
  appends to \<open>schedule\<close> and stops at the first exception, and the function. \<open>now\<close> is
  \<open>datetime.now()\<close> of line 89.
\<close>

definition build_entry :: "config \<Rightarrow> string \<Rightarrow> datetime \<Rightarrow> string \<Rightarrow> error + ScheduleEntry" where
  "build_entry config selected_fmt now entry =
     (let section_name = ''schedule'' @ ''_'' @ entry in
      case get config section_name ''mode'' of Inl err \<Rightarrow> Inl err | Inr mode_v \<Rightarrow>
      case get config section_name ''start'' of Inl err \<Rightarrow> Inl err | Inr start_text \<Rightarrow>
      case strptime start_text selected_fmt of Inl err \<Rightarrow> Inl err | Inr start_v \<Rightarrow>
      case get config section_name ''end'' of Inl err \<Rightarrow> Inl err | Inr end_text \<Rightarrow>
      case strptime end_text selected_fmt of Inl err \<Rightarrow> Inl err | Inr end_v \<Rightarrow>
      case rollover (replace_date end_v now) now of Inl err \<Rightarrow> Inl err | Inr end_w \<Rightarrow>
      Inr \<lparr>mode = mode_v, start = replace_date start_v now, end' = end_w\<rparr>)"

fun build_loop :: "config \<Rightarrow> string \<Rightarrow> datetime \<Rightarrow> string list \<Rightarrow> ScheduleEntry list \<Rightarrow> error + ScheduleEntry list" where
  "build_loop config selected_fmt now [] schedule = Inr schedule"
| "build_loop config selected_fmt now (entry # entries) schedule =
     (case build_entry config selected_fmt now entry of
        Inl err \<Rightarrow> Inl err
      | Inr schedule_entry \<Rightarrow> build_loop config selected_fmt now entries (schedule @ [schedule_entry]))"

definition build_schedule :: "config \<Rightarrow> datetime \<Rightarrow> error + ScheduleEntry list" where
  "build_schedule config now =
     (case get config ''schedule'' ''entries'' of Inl err \<Rightarrow> Inl err | Inr entries \<Rightarrow>
      case getint config ''schedule'' ''clock'' of Inl err \<Rightarrow> Inl err | Inr clock_type \<Rightarrow>
      build_loop config (select_fmt clock_type) now (entry_names (strip entries)) [])"

section \<open>find\_entry\<close>

text \<open>
  The loop of \<open>find_entry\<close>: \<open>found_entry\<close> starts as \<open>None\<close> and is overwritten by
  every entry with \<open>entry.start <= now < entry.end\<close>; the loop has no \<open>break\<close>.
  The instant \<open>now\<close> is \<open>datetime.now()\<close>, read once before the loop, and is a
  parameter of the model.
\<close>

fun find_entry_loop :: "ScheduleEntry list \<Rightarrow> datetime \<Rightarrow> ScheduleEntry option \<Rightarrow> ScheduleEntry option" where
  "find_entry_loop [] now found_entry = found_entry"
| "find_entry_loop (entry # rest) now found_entry =
     find_entry_loop rest now
       (if dt_le (start entry) now \<and> dt_less now (end' entry) then Some entry else found_entry)"

definition find_entry :: "ScheduleEntry list \<Rightarrow> datetime \<Rightarrow> error + ScheduleEntry" where
  "find_entry schedule now =
     (case find_entry_loop schedule now None of
        None \<Rightarrow> Inl (RuntimeError ''Entry not found.'')
      | Some found_entry \<Rightarrow> Inr found_entry)"

section \<open>check\_station\_mode and the recipients of main\<close>

text \<open>Lines 58-61 of \<open>main\<close>: the list of recipients.\<close>

definition recipient_list :: "string \<Rightarrow> string list" where
  "recipient_list recipients =
     (if CHR '','' \<in> set recipients then map strip (split recipients CHR '','') else [recipients])"

text \<open>
  The message built at lines 145-148: \<open>MIMEText(content, 'plain')\<close> with the headers
  \<open>From\<close>, \<open>To\<close> and \<open>Subject\<close>.
\<close>

record message =
  msg_payload :: string
  msg_from :: string
  msg_to :: string
  msg_subject :: string

text \<open>
  The collaborators of lines 144-153, each of which returns or raises:
  \<^item> \<open>enter\<close>: \<open>SMTPManager.__enter__\<close> (connect, \<open>ehlo\<close>, \<open>starttls\<close>, \<open>ehlo\<close>, \<open>login\<close>),
    \<open>None\<close> when the session opens and the exception otherwise;
  \<^item> \<open>as_string\<close>: the construction of the message and \<open>msg.as_string()\<close>, which gives
    the text of the message or raises (the email package refuses, for one, a header value
    with a line break that no whitespace follows);
  \<^item> \<open>sendmail\<close>: \<open>smtp.sendmail(from, recipients, text)\<close>;
  \<^item> \<open>quit\<close>: \<open>SMTPManager.__exit__\<close>, which calls \<open>quit()\<close>.
  What the function does to them is recorded as a list of effects, in order.
\<close>

record collaborators =
  enter :: "error option"
  as_string :: "message \<Rightarrow> error + string"
  sendmail :: "string \<Rightarrow> string list \<Rightarrow> string \<Rightarrow> error option"
  quit :: "error option"

datatype effect =
    Session_enter
  | As_string message
  | Sendmail string "string list" string
  | Session_exit

text \<open>
  \<open>check_station_mode\<close> returns the effects and the exception that leaves the function,
  if any. With equal lowercase modes it only logs. Otherwise it computes \<open>content\<close> and
  enters the \<open>with\<close> block: when \<open>__enter__\<close> raises, the body does not run; when the body
  raises (in \<open>as_string\<close>, which is evaluated before \<open>sendmail\<close> is called, or in
  \<open>sendmail\<close>), \<open>__exit__\<close> runs and the exception propagates, replaced by that of
  \<open>quit()\<close> if it raises too; when the body returns, \<open>__exit__\<close> runs. The first
  argument of \<open>sendmail\<close>, \<open>msg['From']\<close>, reads back the originator.
\<close>

definition check_station_mode ::
  "collaborators \<Rightarrow> ScheduleEntry \<Rightarrow> string \<Rightarrow> string \<Rightarrow> string list \<Rightarrow> effect list \<times> error option" where
  "check_station_mode smtp_manager found_entry station_mode originator notification_recipients =
     (if lower (mode found_entry) = lower station_mode then ([], None)
      else
        (let content = ''Arlo in '' @ station_mode @ '' should be '' @ mode found_entry;
             msg = \<lparr>msg_payload = content,
                    msg_from = originator,
                    msg_to = join '', '' notification_recipients,
                    msg_subject = content\<rparr>
         in case enter smtp_manager of
              Some err \<Rightarrow> ([Session_enter], Some err)
            | None \<Rightarrow>
                (case as_string smtp_manager msg of
                   Inl err \<Rightarrow>
                     ([Session_enter, As_string msg, Session_exit],
                      Some (case quit smtp_manager of Some err' \<Rightarrow> err' | None \<Rightarrow> err))
                 | Inr msg_text \<Rightarrow>
                     (case sendmail smtp_manager originator notification_recipients msg_text of
                        Some err \<Rightarrow>
                          ([Session_enter, As_string msg,
                            Sendmail originator notification_recipients msg_text, Session_exit],
                           Some (case quit smtp_manager of Some err' \<Rightarrow> err' | None \<Rightarrow> err))
                      | None \<Rightarrow>
                          ([Session_enter, As_string msg,
                            Sendmail originator notification_recipients msg_text, Session_exit],
                           quit smtp_manager)))))"

section \<open>Example values\<close>

definition at_time :: "int \<Rightarrow> int \<Rightarrow> datetime" where
  "at_time h m = \<lparr>year = 2024, month = 3, day = 15, hour = h, minute = m, second = 0, microsecond = 0\<rparr>"

definition entry_A :: ScheduleEntry where
  "entry_A = \<lparr>mode = ''x'', start = at_time 9 0, end' = at_time 17 0\<rparr>"

definition entry_B :: ScheduleEntry where
  "entry_B = \<lparr>mode = ''y'', start = at_time 12 0, end' = at_time 13 0\<rparr>"

definition entry_morning :: ScheduleEntry where
  "entry_morning = \<lparr>mode = ''armed'', start = at_time 8 0, end' = at_time 12 0\<rparr>"

definition entry_afternoon :: ScheduleEntry where
  "entry_afternoon = \<lparr>mode = ''disarmed'', start = at_time 13 0, end' = at_time 18 0\<rparr>"

text \<open>A configuration given by its options, with a fixed result of \<open>getint\<close>.\<close>

definition config_of :: "((string \<times> string) \<times> string) list \<Rightarrow> int \<Rightarrow> config" where
  "config_of options clock =
     \<lparr>get = (\<lambda>section option.
         case map_of options (section, option) of None \<Rightarrow> Inl NoOptionError | Some v \<Rightarrow> Inr v),
      getint = (\<lambda>section option. Inr clock)\<rparr>"

definition overnight_options :: "((string \<times> string) \<times> string) list" where
  "overnight_options =
     [((''schedule'', ''entries''), ''night, day''),
      ((''schedule_night'', ''mode''), ''armed''),
      ((''schedule_night'', ''start''), ''10:00 PM''),
      ((''schedule_night'', ''end''), ''06:00 AM''),
      ((''schedule_day'', ''mode''), ''disarmed''),
      ((''schedule_day'', ''start''), ''06:00 AM''),
      ((''schedule_day'', ''end''), ''12:00 AM'')]"

definition config_overnight :: config where
  "config_overnight = config_of overnight_options 12"

definition entry_night :: ScheduleEntry where
  "entry_night = \<lparr>mode = ''armed'', start = at_time 22 0, end' = at_time 6 0\<rparr>"

definition entry_day :: ScheduleEntry where
  "entry_day = \<lparr>mode = ''disarmed'', start = at_time 6 0,
     end' = \<lparr>year = 2024, month = 3, day = 16, hour = 0, minute = 0, second = 0, microsecond = 0\<rparr>\<rparr>"

definition clock24_options :: "((string \<times> string) \<times> string) list" where
  "clock24_options =
     [((''schedule'', ''entries''), ''work''),
      ((''schedule_work'', ''mode''), ''armed''),
      ((''schedule_work'', ''start''), ''09:05''),
      ((''schedule_work'', ''end''), ''17:10'')]"

definition config_clock24 :: config where
  "config_clock24 = config_of clock24_options 24"

definition config_half_past :: config where
  "config_half_past = config_of
     [((''schedule'', ''entries''), ''work''),
      ((''schedule_work'', ''mode''), ''armed''),
      ((''schedule_work'', ''start''), ''09:30''),
      ((''schedule_work'', ''end''), ''17:00'')] 24"

text \<open>An instant with seconds and microseconds.\<close>

definition now_example :: datetime where
  "now_example =
     \<lparr>year = 2024, month = 3, day = 15, hour = 12, minute = 30, second = 7, microsecond = 123\<rparr>"

text \<open>
  Collaborators that never fail, with a plain rendering of the message, and collaborators
  whose \<open>as_string\<close> refuses a header value with a line feed.
\<close>

definition render :: "message \<Rightarrow> string" where
  "render m =
     ''From: '' @ msg_from m @ [CHR 0x0A] @ ''To: '' @ msg_to m @ [CHR 0x0A]
     @ ''Subject: '' @ msg_subject m @ [CHR 0x0A, CHR 0x0A] @ msg_payload m"

definition smtp_ok :: collaborators where
  "smtp_ok = \<lparr>enter = None, as_string = (\<lambda>m. Inr (render m)),
              sendmail = (\<lambda>from_addr to_addrs msg_text. None), quit = None\<rparr>"


definition entry_of_mode :: "string \<Rightarrow> ScheduleEntry" where
  "entry_of_mode m = \<lparr>mode = m, start = at_time 9 0, end' = at_time 17 0\<rparr>"

section \<open>Properties of the comparison\<close>

lemma dt_eq_iff: "dt_eq a b \<longleftrightarrow> a = b"
  by (cases a, cases b) (simp add: dt_eq_def dt_key_def)


section \<open>Properties of the string operations\<close>

lemma split_not_Nil: "split s sep \<noteq> []"
  by (induction s) (simp_all add: Let_def)

lemma join_Cons_Cons: "ps \<noteq> [] \<Longrightarrow> join sep (p # ps) = p @ sep @ join sep ps"
  by (cases ps) simp_all

lemma join_split: "join [sep] (split s sep) = s"
proof (induction s)
  case Nil
  show ?case by simp
next
  case (Cons c cs)
  obtain p ps where sp: "split cs sep = p # ps"
    using split_not_Nil [of cs sep] by (cases "split cs sep") auto
  show ?case
  proof (cases "c = sep")
    case True
    with Cons sp show ?thesis by simp
  next
    case False
    with Cons sp show ?thesis by (cases ps) simp_all
  qed
qed

lemma split_no_sep: "p \<in> set (split s sep) \<Longrightarrow> sep \<notin> set p"
proof (induction s arbitrary: p)
  case Nil
  then show ?case by simp
next
  case (Cons c cs)
  obtain q qs where sp: "split cs sep = q # qs"
    using split_not_Nil [of cs sep] by (cases "split cs sep") auto
  from Cons sp show ?case
    by (auto split: if_splits)
qed

lemma length_split: "length (split s sep) = Suc (count_list s sep)"
proof (induction s)
  case Nil
  show ?case by simp
next
  case (Cons c cs)
  obtain q qs where sp: "split cs sep = q # qs"
    using split_not_Nil [of cs sep] by (cases "split cs sep") auto
  from Cons sp show ?case by simp
qed

lemma split_no_sep_id: "sep \<notin> set s \<Longrightarrow> split s sep = [s]"
  by (induction s) auto

lemma strip_decompose:
  "\<exists>l r. s = l @ strip s @ r \<and> list_all isspace l \<and> list_all isspace r"
proof -
  let ?l = "takeWhile isspace s"
  let ?m = "dropWhile isspace s"
  let ?r = "rev (takeWhile isspace (rev ?m))"
  have "rev ?m = takeWhile isspace (rev ?m) @ dropWhile isspace (rev ?m)" by simp
  then have "?m = rev (dropWhile isspace (rev ?m)) @ ?r"
    by (metis rev_append rev_rev_ident)
  then have m: "?m = strip s @ ?r"
    by (simp add: strip_def rstrip_def lstrip_def)
  have "s = ?l @ ?m" by simp
  with m have "s = ?l @ strip s @ ?r" by simp
  moreover have "list_all isspace ?l"
    by (simp add: list_all_iff) (meson set_takeWhileD)
  moreover have "list_all isspace ?r"
    by (simp add: list_all_iff) (meson set_takeWhileD)
  ultimately show ?thesis by blast
qed

lemma strip_ends:
  "strip s = [] \<or> (\<not> isspace (hd (strip s)) \<and> \<not> isspace (last (strip s)))"
proof (cases "strip s = []")
  case True
  then show ?thesis by simp
next
  case False
  let ?m = "dropWhile isspace s"
  let ?k = "dropWhile isspace (rev ?m)"
  have st: "strip s = rev ?k" by (simp add: strip_def rstrip_def lstrip_def)
  with False have k: "?k \<noteq> []" by simp
  then have hk: "\<not> isspace (hd ?k)" by (rule hd_dropWhile)
  have last_ok: "\<not> isspace (last (strip s))"
    using hk k by (simp add: st last_rev)
  have m_ne: "?m \<noteq> []"
    using k by (metis dropWhile.simps(1) rev.simps(1))
  then have hm: "\<not> isspace (hd ?m)" by (rule hd_dropWhile)
  have "hd (strip s) = hd ?m"
  proof -
    have "rev ?m = takeWhile isspace (rev ?m) @ ?k" by simp
    then have "?m = rev ?k @ rev (takeWhile isspace (rev ?m))"
      by (metis rev_append rev_rev_ident)
    then have "hd ?m = hd (rev ?k @ rev (takeWhile isspace (rev ?m)))"
      by (rule arg_cong)
    also have "\<dots> = hd (rev ?k)"
      using k by (simp only: hd_append2 rev_is_Nil_conv not_False_eq_True)
    finally show ?thesis by (simp only: st)
  qed
  with hm last_ok show ?thesis by simp
qed

section \<open>Properties of the calendar arithmetic\<close>

lemma div_step:
  assumes "0 < (k::int)"
  shows "y div k = (y - 1) div k + (if y mod k = 0 then 1 else 0)"
proof (cases "y mod k = 0")
  case True
  have "y = k * (y div k) + y mod k" by simp
  with True have e: "y - 1 = k * (y div k - 1) + (k - 1)"
    by (simp add: algebra_simps)
  have "(y - 1) div k = y div k - 1"
    by (rule int_div_pos_eq [OF e]) (use assms in simp_all)
  with True show ?thesis by simp
next
  case False
  have r: "0 \<le> y mod k" "y mod k < k"
    using assms by simp_all
  have "y = k * (y div k) + y mod k" by simp
  then have e: "y - 1 = k * (y div k) + (y mod k - 1)"
    by simp
  have "(y - 1) div k = y div k"
    by (rule int_div_pos_eq [OF e]) (use False r in simp_all)
  with False show ?thesis by simp
qed

lemma mod_100_imp_4: "(y::int) mod 100 = 0 \<Longrightarrow> y mod 4 = 0"
proof -
  assume "y mod 100 = 0"
  then have "100 dvd y" by (simp add: mod_eq_0_iff_dvd)
  moreover have "(4::int) dvd 100" by simp
  ultimately have "4 dvd y" by (rule dvd_trans [rotated])
  then show ?thesis by (simp add: mod_eq_0_iff_dvd)
qed

lemma mod_400_imp_100: "(y::int) mod 400 = 0 \<Longrightarrow> y mod 100 = 0"
proof -
  assume "y mod 400 = 0"
  then have "400 dvd y" by (simp add: mod_eq_0_iff_dvd)
  moreover have "(100::int) dvd 400" by simp
  ultimately have "100 dvd y" by (rule dvd_trans [rotated])
  then show ?thesis by (simp add: mod_eq_0_iff_dvd)
qed

lemma not_mod_4: "(y::int) mod 4 \<noteq> 0 \<Longrightarrow> y mod 100 \<noteq> 0"
  by (rule notI, drule mod_100_imp_4) (erule notE)

lemma not_mod_100: "(y::int) mod 100 \<noteq> 0 \<Longrightarrow> y mod 400 \<noteq> 0"
  by (rule notI, drule mod_400_imp_100) (erule notE)

lemma year_step_arith:
  fixes a b c :: int
  assumes "a' = a + i" "b' = b + j" "c' = c + k"
  shows "y * 365 + a' - b' + c' = (y - 1) * 365 + a - b + c + (365 + i - j + k)"
  using assms by (simp add: algebra_simps)

lemma days_before_year_delta:
  "days_before_year (y + 1) = days_before_year y
     + (365 + (if y mod 4 = 0 then 1 else 0) - (if y mod 100 = 0 then 1 else 0)
        + (if y mod 400 = 0 then 1 else 0))"
proof -
  have d4: "y div 4 = (y - 1) div 4 + (if y mod 4 = 0 then 1 else 0)"
    by (rule div_step) simp
  have d100: "y div 100 = (y - 1) div 100 + (if y mod 100 = 0 then 1 else 0)"
    by (rule div_step) simp
  have d400: "y div 400 = (y - 1) div 400 + (if y mod 400 = 0 then 1 else 0)"
    by (rule div_step) simp
  show ?thesis
    unfolding days_before_year_def add_diff_cancel_right'
    by (rule year_step_arith [OF d4 d100 d400])
qed

lemma days_before_year_next:
  "days_before_year (y + 1) = days_before_year y + (if is_leap y then 366 else 365)"
proof (cases "y mod 4 = 0")
  case False
  then have m100: "y mod 100 \<noteq> 0" by (rule not_mod_4)
  then have m400: "y mod 400 \<noteq> 0" by (rule not_mod_100)
  have "\<not> is_leap y" using False by (simp add: is_leap_def)
  then show ?thesis
    using False m100 m400 by (simp add: days_before_year_delta)
next
  case m4: True
  show ?thesis
  proof (cases "y mod 100 = 0")
    case False
    then have m400: "y mod 400 \<noteq> 0" by (rule not_mod_100)
    have "is_leap y" using m4 False by (simp add: is_leap_def)
    then show ?thesis
      using m4 False m400 by (simp add: days_before_year_delta)
  next
    case m100: True
    show ?thesis
    proof (cases "y mod 400 = 0")
      case False
      have "\<not> is_leap y" using m100 False by (simp add: is_leap_def)
      then show ?thesis
        using m4 m100 False by (simp add: days_before_year_delta)
    next
      case True
      have "is_leap y" using m4 True by (simp add: is_leap_def)
      then show ?thesis
        using m4 m100 True by (simp add: days_before_year_delta)
    qed
  qed
qed

lemma days_before_year_pos: "1 \<le> y \<Longrightarrow> 0 \<le> days_before_year y"
proof -
  assume y: "1 \<le> y"
  have "(y - 1) div 100 \<le> (y - 1) div 4"
    using y by (intro zdiv_mono2) simp_all
  moreover have "0 \<le> (y - 1) div 400"
    using y by simp
  moreover have "0 \<le> (y - 1) * 365"
    using y by simp
  ultimately show ?thesis
    by (simp add: days_before_year_def)
qed

lemma days_before_month_next:
  "1 \<le> m \<Longrightarrow> m < 12 \<Longrightarrow>
   days_before_month y (m + 1) = days_before_month y m + days_in_month y m"
proof -
  assume "1 \<le> m" "m < 12"
  then have "m = 1 \<or> m = 2 \<or> m = 3 \<or> m = 4 \<or> m = 5 \<or> m = 6 \<or> m = 7 \<or> m = 8
      \<or> m = 9 \<or> m = 10 \<or> m = 11" by arith
  then show ?thesis
    by (elim disjE) (simp_all add: days_before_month_def days_in_month_def)
qed

lemma days_in_month_ge: "28 \<le> days_in_month y m"
  by (simp add: days_in_month_def)

lemma days_in_month_le: "days_in_month y m \<le> 31"
  by (simp add: days_in_month_def)

lemma toordinal_next_date:
  assumes "valid_datetime d"
  shows "toordinal (next_date d) = toordinal d + 1"
proof -
  from assms have m: "1 \<le> month d" "month d \<le> 12"
    and dd: "day d \<le> days_in_month (year d) (month d)"
    by (simp_all add: valid_datetime_def)
  consider (same) "day d < days_in_month (year d) (month d)"
    | (month_end) "day d = days_in_month (year d) (month d)" "month d < 12"
    | (year_end) "day d = days_in_month (year d) (month d)" "month d = 12"
    using m dd by linarith
  then show ?thesis
  proof cases
    case same
    then show ?thesis by (simp add: next_date_def toordinal_def)
  next
    case month_end
    then show ?thesis
      using m days_before_month_next [of "month d" "year d"]
      by (simp add: next_date_def toordinal_def)
  next
    case year_end
    then show ?thesis
      using days_before_year_next [of "year d"]
      by (simp add: next_date_def toordinal_def days_before_month_def days_in_month_def)
  qed
qed

lemma toordinal_last_day:
  "year d = 9999 \<Longrightarrow> month d = 12 \<Longrightarrow> day d = 31 \<Longrightarrow> toordinal d = MAXORDINAL"
  by (simp add: toordinal_def days_before_year_def days_before_month_def is_leap_def MAXORDINAL_def)

lemma valid_next_date:
  assumes "valid_datetime d" "toordinal d + 1 \<le> MAXORDINAL"
  shows "valid_datetime (next_date d)"
proof -
  have not_last: "\<not> (year d = 9999 \<and> month d = 12 \<and> day d = 31)"
    using assms(2) toordinal_last_day [of d] by auto
  have d31: "days_in_month y 12 = 31" for y by (simp add: days_in_month_def)
  show ?thesis
    using assms(1) not_last days_in_month_ge [of "year d" "month d + 1"]
      days_in_month_ge [of "year d + 1" 1]
    by (auto simp: valid_datetime_def next_date_def d31)
qed

lemma days_before_month_nonneg: "1 \<le> m \<Longrightarrow> m \<le> 12 \<Longrightarrow> 0 \<le> days_before_month y m"
proof -
  assume "1 \<le> m" "m \<le> 12"
  then have "m = 1 \<or> m = 2 \<or> m = 3 \<or> m = 4 \<or> m = 5 \<or> m = 6 \<or> m = 7 \<or> m = 8
      \<or> m = 9 \<or> m = 10 \<or> m = 11 \<or> m = 12" by arith
  then show ?thesis
    by (elim disjE) (simp_all add: days_before_month_def)
qed

lemma toordinal_pos: "valid_datetime d \<Longrightarrow> 0 < toordinal d"
  using days_before_year_pos [of "year d"] days_before_month_nonneg [of "month d" "year d"]
  by (simp add: valid_datetime_def toordinal_def)

lemma valid_start_of_day: "valid_datetime now \<Longrightarrow> valid_datetime (start_of_day now)"
  by (simp add: valid_datetime_def start_of_day_def)

lemma days_before_year_mono_step: "days_before_year y < days_before_year (y + 1)"
  by (simp add: days_before_year_next)

lemma days_before_year_mono: "y \<le> z \<Longrightarrow> days_before_year y \<le> days_before_year z"
proof (induction z rule: int_ge_induct)
  case base
  show ?case by simp
next
  case (step i)
  with days_before_year_mono_step [of i] show ?case by simp
qed

lemma day_of_year_bound:
  assumes "1 \<le> m" "m \<le> 12" "1 \<le> dd" "dd \<le> days_in_month y m"
  shows "days_before_month y m + dd \<le> (if is_leap y then 366 else 365)
    \<and> (days_before_month y m + dd = (if is_leap y then 366 else 365) \<longrightarrow> m = 12 \<and> dd = 31)"
proof -
  from assms(1,2) have "m = 1 \<or> m = 2 \<or> m = 3 \<or> m = 4 \<or> m = 5 \<or> m = 6 \<or> m = 7 \<or> m = 8
      \<or> m = 9 \<or> m = 10 \<or> m = 11 \<or> m = 12" by arith
  then show ?thesis
    using assms(3,4)
    by (elim disjE) (auto simp: days_before_month_def days_in_month_def split: if_splits)
qed

lemma toordinal_max:
  assumes "valid_datetime d" "\<not> (year d = 9999 \<and> month d = 12 \<and> day d = 31)"
  shows "toordinal d + 1 \<le> MAXORDINAL"
proof -
  from assms(1) have v: "1 \<le> month d" "month d \<le> 12" "1 \<le> day d"
    "day d \<le> days_in_month (year d) (month d)" "year d \<le> 9999"
    by (simp_all add: valid_datetime_def)
  note b = day_of_year_bound [OF v(1-4)]
  have last: "days_before_year 10000 = MAXORDINAL"
    by (simp add: days_before_year_def MAXORDINAL_def)
  have nxt: "days_before_year (year d + 1) = days_before_year (year d) + (if is_leap (year d) then 366 else 365)"
    by (rule days_before_year_next)
  have le: "days_before_year (year d + 1) \<le> days_before_year 10000"
    using v(5) by (intro days_before_year_mono) simp
  show ?thesis
  proof (cases "year d = 9999")
    case True
    with assms(2) b have "days_before_month (year d) (month d) + day d < (if is_leap (year d) then 366 else 365)"
      by (cases "is_leap (year d)") auto
    with nxt le last show ?thesis by (simp add: toordinal_def split: if_splits)
  next
    case False
    with v(5) have "year d + 1 \<le> 9999" by simp
    then have "days_before_year (year d + 1) \<le> days_before_year 9999"
      by (rule days_before_year_mono)
    moreover have "days_before_year 9999 + 365 = MAXORDINAL"
      by (simp add: days_before_year_def MAXORDINAL_def)
    ultimately show ?thesis
      using b nxt by (simp add: toordinal_def split: if_splits)
  qed
qed

section \<open>Properties of strptime\<close>

lemma first_some_Some:
  "first_some f xs = Some y \<Longrightarrow> \<exists>x \<in> set xs. f x = Some y"
  by (induction xs) (auto split: option.splits)

lemma regex_match_items:
  "regex_match items s = Some (found, rest) \<Longrightarrow> map fst found = items"
proof (induction items arbitrary: s found rest)
  case Nil
  then show ?case by simp
next
  case (Cons item items)
  from first_some_Some [OF Cons.prems [simplified]] obtain matched r where
    "(case regex_match items r of None \<Rightarrow> None
      | Some (f, u) \<Rightarrow> Some ((item, matched) # f, u)) = Some (found, rest)"
    by auto
  then obtain f where "regex_match items r = Some (f, rest)" "found = (item, matched) # f"
    by (auto split: option.splits)
  with Cons.IH show ?case by auto
qed

lemma pattern_fmt_24: "pattern fmt_24 = Some [Group Dir_H, Lit CHR '':'', Group Dir_m]"
  by code_simp

lemma strptime_fmt_24_minute:
  assumes "strptime data_string fmt_24 = Inr d"
  shows "minute d = 0"
proof -
  from assms obtain found where
    m: "regex_match [Group Dir_H, Lit CHR '':'', Group Dir_m] data_string = Some (found, [])"
    and d: "d = foldl (convert_group found)
              \<lparr>year = 1900, month = 1, day = 1, hour = 0, minute = 0, second = 0, microsecond = 0\<rparr>
              found"
    by (auto simp: strptime_def pattern_fmt_24 split: option.splits if_splits)
  from regex_match_items [OF m] obtain a b c where
    "found = [(Group Dir_H, a), (Lit CHR '':'', b), (Group Dir_m, c)]"
    by (auto simp: map_eq_Cons_conv)
  with d show ?thesis by simp
qed

section \<open>Properties of build\_schedule\<close>

lemma rollover_other:
  "x \<noteq> start_of_day now \<Longrightarrow> rollover x now = Inr x"
  by (simp add: rollover_def dt_eq_iff)

lemma rollover_midnight:
  "rollover (start_of_day now) now = Inr y \<Longrightarrow>
   y = next_date (start_of_day now) \<and> toordinal (start_of_day now) + 1 \<le> MAXORDINAL"
  by (auto simp: rollover_def dt_eq_iff plus_one_day_def Let_def split: if_splits)

lemma rollover_total:
  assumes "valid_datetime now" "\<not> (year now = 9999 \<and> month now = 12 \<and> day now = 31)"
  shows "\<exists>y. rollover x now = Inr y"
proof (cases "x = start_of_day now")
  case True
  have "valid_datetime (start_of_day now)"
    using assms(1) by (rule valid_start_of_day)
  moreover have "\<not> (year (start_of_day now) = 9999 \<and> month (start_of_day now) = 12
      \<and> day (start_of_day now) = 31)"
    using assms(2) by (simp add: start_of_day_def)
  ultimately have "toordinal (start_of_day now) + 1 \<le> MAXORDINAL"
    by (rule toordinal_max)
  moreover have "0 < toordinal (start_of_day now)"
    using assms(1) by (intro toordinal_pos valid_start_of_day)
  ultimately show ?thesis
    using True by (simp add: rollover_def dt_eq_iff plus_one_day_def)
next
  case False
  then show ?thesis by (simp add: rollover_other)
qed

lemma build_entry_Inr:
  assumes "build_entry config fmt now name = Inr e"
  shows "\<exists>start_text start_v end_text end_v.
      get config (''schedule_'' @ name) ''mode'' = Inr (mode e)
    \<and> get config (''schedule_'' @ name) ''start'' = Inr start_text
    \<and> strptime start_text fmt = Inr start_v
    \<and> get config (''schedule_'' @ name) ''end'' = Inr end_text
    \<and> strptime end_text fmt = Inr end_v
    \<and> start e = replace_date start_v now
    \<and> rollover (replace_date end_v now) now = Inr (end' e)"
  using assms by (auto simp: build_entry_def Let_def split: sum.splits)

lemma build_loop_Inr:
  "build_loop config fmt now names acc = Inr schedule \<Longrightarrow>
   \<exists>rest. schedule = acc @ rest \<and> list_all2 (\<lambda>name e. build_entry config fmt now name = Inr e) names rest"
proof (induction names arbitrary: acc)
  case Nil
  then show ?case by simp
next
  case (Cons name names)
  from Cons.prems obtain e where e: "build_entry config fmt now name = Inr e"
    and rest: "build_loop config fmt now names (acc @ [e]) = Inr schedule"
    by (auto split: sum.splits)
  from Cons.IH [OF rest] obtain r where "schedule = (acc @ [e]) @ r"
    and "list_all2 (\<lambda>name e. build_entry config fmt now name = Inr e) names r"
    by blast
  with e have "schedule = acc @ (e # r) \<and>
      list_all2 (\<lambda>name e. build_entry config fmt now name = Inr e) (name # names) (e # r)"
    by simp
  then show ?case by blast
qed

lemma build_schedule_Inr:
  assumes "build_schedule config now = Inr schedule"
  shows "\<exists>entries clock_type.
      get config ''schedule'' ''entries'' = Inr entries
    \<and> getint config ''schedule'' ''clock'' = Inr clock_type
    \<and> list_all2 (\<lambda>name e. build_entry config (select_fmt clock_type) now name = Inr e)
         (entry_names (strip entries)) schedule"
proof -
  from assms obtain entries clock_type where
    g: "get config ''schedule'' ''entries'' = Inr entries"
       "getint config ''schedule'' ''clock'' = Inr clock_type"
    and l: "build_loop config (select_fmt clock_type) now (entry_names (strip entries)) [] = Inr schedule"
    by (auto simp: build_schedule_def split: sum.splits)
  from build_loop_Inr [OF l] g show ?thesis by auto
qed

lemma build_schedule_member:
  assumes "build_schedule config now = Inr schedule" "e \<in> set schedule"
  shows "\<exists>clock_type name.
      getint config ''schedule'' ''clock'' = Inr clock_type
    \<and> build_entry config (select_fmt clock_type) now name = Inr e"
proof -
  from build_schedule_Inr [OF assms(1)] obtain entries clock_type where
    c: "getint config ''schedule'' ''clock'' = Inr clock_type"
    and l: "list_all2 (\<lambda>name e. build_entry config (select_fmt clock_type) now name = Inr e)
         (entry_names (strip entries)) schedule"
    by blast
  from assms(2) obtain i where i: "i < length schedule" "schedule ! i = e"
    by (auto simp: in_set_conv_nth)
  with l have "build_entry config (select_fmt clock_type) now (entry_names (strip entries) ! i) = Inr e"
    by (auto simp: list_all2_conv_all_nth)
  with c show ?thesis by blast
qed

lemma build_entry_order:
  assumes "build_entry config fmt now name = Inr e"
  shows "dt_less (start e) (end' e) \<longleftrightarrow>
      (hour (end' e) = 0 \<and> minute (end' e) = 0)
      \<or> (hour (start e), minute (start e)) < (hour (end' e), minute (end' e))"
proof -
  from build_entry_Inr [OF assms] obtain start_v end_v where
    s: "start e = replace_date start_v now"
    and r: "rollover (replace_date end_v now) now = Inr (end' e)"
    by blast
  show ?thesis
  proof (cases "replace_date end_v now = start_of_day now")
    case True
    with r have "end' e = next_date (start_of_day now)"
      using rollover_midnight [of now "end' e"] by simp
    then show ?thesis
      by (simp add: s dt_less_def dt_key_def replace_date_def start_of_day_def next_date_def)
  next
    case False
    with r have e: "end' e = replace_date end_v now"
      by (simp add: rollover_other)
    from False have "\<not> (hour end_v = 0 \<and> minute end_v = 0)"
      by (cases end_v, cases now) (simp add: replace_date_def start_of_day_def)
    then show ?thesis
      by (auto simp: s e dt_less_def dt_key_def replace_date_def)
  qed
qed

text \<open>
  C1 (amended). An entry produced by \<open>build_schedule\<close> satisfies \<open>start < end\<close> exactly when
  the time of day of its \<open>end\<close> is 00:00 (the rollover has then moved \<open>end\<close> to the start
  of the next day) or the time of day (hour, minute) of its \<open>end\<close> is later than that of
  its \<open>start\<close>. The rollover applies to no other entry: an interval whose \<open>end\<close> is
  earlier in the day than its \<open>start\<close>, and is not 00:00, keeps \<open>end <= start\<close>, as the
  schedule of \<open>config_overnight\<close> shows for 10:00 PM to 06:00 AM.
\<close>

theorem build_schedule_start_before_end:
  assumes "build_schedule config now = Inr schedule" and "e \<in> set schedule"
  shows "dt_less (start e) (end' e) \<longleftrightarrow>
      (hour (end' e) = 0 \<and> minute (end' e) = 0)
      \<or> (hour (start e), minute (start e)) < (hour (end' e), minute (end' e))"
proof -
  from build_schedule_member [OF assms] obtain clock_type name where
    "build_entry config (select_fmt clock_type) now name = Inr e"
    by blast
  then show ?thesis by (rule build_entry_order)
qed

lemma overnight_schedule:
  "build_schedule config_overnight (at_time 12 30) = Inr [entry_night, entry_day]"
  by code_simp

theorem build_schedule_overnight_counterexample:
  "build_schedule config_overnight (at_time 12 30) = Inr [entry_night, entry_day]
   \<and> start entry_night = at_time 22 0 \<and> end' entry_night = at_time 6 0
   \<and> \<not> dt_less (start entry_night) (end' entry_night)"
  using overnight_schedule by (simp add: dt_less_def dt_key_def at_time_def entry_night_def)

theorem build_schedule_start_before_end_witness:
  "build_schedule config_overnight (at_time 12 30) = Inr [entry_night, entry_day]
   \<and> entry_day \<in> set [entry_night, entry_day]
   \<and> dt_less (start entry_day) (end' entry_day)
   \<and> hour (end' entry_day) = 0 \<and> minute (end' entry_day) = 0"
proof -
  have mem: "entry_day \<in> set [entry_night, entry_day]" by simp
  have midnight: "hour (end' entry_day) = 0 \<and> minute (end' entry_day) = 0"
    by (simp add: entry_day_def)
  with build_schedule_start_before_end [OF overnight_schedule mem]
  have "dt_less (start entry_day) (end' entry_day)" by simp
  with overnight_schedule mem midnight show ?thesis by simp
qed

lemma fmt_distinct: "fmt_24 \<noteq> fmt_12"
  by (simp add: fmt_24_def fmt_12_def)

lemma replace_date_fields:
  "replace_date t now =
     \<lparr>year = year now, month = month now, day = day now, hour = hour t, minute = minute t,
      second = 0, microsecond = 0\<rparr>"
  by (cases t) (simp add: replace_date_def)

lemma start_of_day_fields:
  "start_of_day now =
     \<lparr>year = year now, month = month now, day = day now, hour = 0, minute = 0,
      second = 0, microsecond = 0\<rparr>"
  by (cases now) (simp add: start_of_day_def)

lemma toordinal_start_of_day: "toordinal (start_of_day now) = toordinal now"
  by (simp add: toordinal_def start_of_day_def)

text \<open>
  C6. In a schedule built at a valid instant \<open>now\<close>, the \<open>end\<close> of every entry comes from
  the configured end string of some entry name, parsed in the selected format. The computed
  end is the hour and minute parsed, on the date of \<open>now\<close>, with seconds and microseconds
  zero. When it equals 00:00:00.000000 of the date of \<open>now\<close> (whatever the time of day of
  \<open>now\<close>), the \<open>end\<close> of the entry is exactly one day later: the ordinal of its date is
  that of \<open>now\<close> plus one, its time is 00:00:00.000000, and it is a valid datetime. When it
  does not, the \<open>end\<close> of the entry is the computed end, unchanged.
\<close>

theorem build_schedule_rollover:
  assumes "valid_datetime now" and "build_schedule config now = Inr schedule"
    and "e \<in> set schedule"
  shows "\<exists>clock_type name end_text parsed.
      getint config ''schedule'' ''clock'' = Inr clock_type
    \<and> get config (''schedule_'' @ name) ''end'' = Inr end_text
    \<and> strptime end_text (select_fmt clock_type) = Inr parsed
    \<and> (\<lparr>year = year now, month = month now, day = day now, hour = hour parsed,
          minute = minute parsed, second = 0, microsecond = 0\<rparr>
        = \<lparr>year = year now, month = month now, day = day now, hour = 0, minute = 0,
           second = 0, microsecond = 0\<rparr>
        \<longrightarrow> toordinal (end' e) = toordinal now + 1
          \<and> hour (end' e) = 0 \<and> minute (end' e) = 0 \<and> second (end' e) = 0
          \<and> microsecond (end' e) = 0 \<and> valid_datetime (end' e))
    \<and> (\<lparr>year = year now, month = month now, day = day now, hour = hour parsed,
          minute = minute parsed, second = 0, microsecond = 0\<rparr>
        \<noteq> \<lparr>year = year now, month = month now, day = day now, hour = 0, minute = 0,
           second = 0, microsecond = 0\<rparr>
        \<longrightarrow> end' e = \<lparr>year = year now, month = month now, day = day now, hour = hour parsed,
                      minute = minute parsed, second = 0, microsecond = 0\<rparr>)"
proof -
  from build_schedule_member [OF assms(2,3)] obtain clock_type name where
    c: "getint config ''schedule'' ''clock'' = Inr clock_type"
    and b: "build_entry config (select_fmt clock_type) now name = Inr e"
    by blast
  from build_entry_Inr [OF b] obtain end_text parsed where
    g: "get config (''schedule_'' @ name) ''end'' = Inr end_text"
    and p: "strptime end_text (select_fmt clock_type) = Inr parsed"
    and r: "rollover (replace_date parsed now) now = Inr (end' e)"
    by blast
  let ?computed = "\<lparr>year = year now, month = month now, day = day now, hour = hour parsed,
          minute = minute parsed, second = 0, microsecond = 0\<rparr>"
  let ?midnight = "\<lparr>year = year now, month = month now, day = day now, hour = 0, minute = 0,
           second = 0, microsecond = 0\<rparr>"
  have rc: "rollover ?computed now = Inr (end' e)"
    using r by (simp only: replace_date_fields)
  have sod: "start_of_day now = ?midnight"
    by (rule start_of_day_fields)
  have midnight: "toordinal (end' e) = toordinal now + 1
        \<and> hour (end' e) = 0 \<and> minute (end' e) = 0 \<and> second (end' e) = 0
        \<and> microsecond (end' e) = 0 \<and> valid_datetime (end' e)"
    if eq: "?computed = ?midnight"
  proof -
    have v: "valid_datetime (start_of_day now)"
      using assms(1) by (rule valid_start_of_day)
    from rc eq sod have "rollover (start_of_day now) now = Inr (end' e)"
      by simp
    then have n: "end' e = next_date (start_of_day now)"
      and m: "toordinal (start_of_day now) + 1 \<le> MAXORDINAL"
      using rollover_midnight [of now "end' e"] by simp_all
    have "hour (next_date (start_of_day now)) = 0 \<and> minute (next_date (start_of_day now)) = 0
       \<and> second (next_date (start_of_day now)) = 0 \<and> microsecond (next_date (start_of_day now)) = 0"
      by (simp add: next_date_def start_of_day_def)
    with n toordinal_next_date [OF v] valid_next_date [OF v m] toordinal_start_of_day [of now]
    show ?thesis by simp
  qed
  have other: "end' e = ?computed" if ne: "?computed \<noteq> ?midnight"
  proof -
    from ne sod have "?computed \<noteq> start_of_day now" by simp
    then have "rollover ?computed now = Inr ?computed" by (rule rollover_other)
    with rc show ?thesis by simp
  qed
  from c g p midnight other show ?thesis by blast
qed

lemma overnight_schedule_example:
  "build_schedule config_overnight now_example = Inr [entry_night, entry_day]"
  by code_simp

theorem build_schedule_rollover_witness:
  "valid_datetime now_example
   \<and> build_schedule config_overnight now_example = Inr [entry_night, entry_day]
   \<and> entry_day \<in> set [entry_night, entry_day]
   \<and> (\<exists>clock_type name end_text parsed.
      getint config_overnight ''schedule'' ''clock'' = Inr clock_type
    \<and> get config_overnight (''schedule_'' @ name) ''end'' = Inr end_text
    \<and> strptime end_text (select_fmt clock_type) = Inr parsed
    \<and> (\<lparr>year = year now_example, month = month now_example, day = day now_example,
          hour = hour parsed, minute = minute parsed, second = 0, microsecond = 0\<rparr>
        = \<lparr>year = year now_example, month = month now_example, day = day now_example,
           hour = 0, minute = 0, second = 0, microsecond = 0\<rparr>
        \<longrightarrow> toordinal (end' entry_day) = toordinal now_example + 1
          \<and> hour (end' entry_day) = 0 \<and> minute (end' entry_day) = 0 \<and> second (end' entry_day) = 0
          \<and> microsecond (end' entry_day) = 0 \<and> valid_datetime (end' entry_day))
    \<and> (\<lparr>year = year now_example, month = month now_example, day = day now_example,
          hour = hour parsed, minute = minute parsed, second = 0, microsecond = 0\<rparr>
        \<noteq> \<lparr>year = year now_example, month = month now_example, day = day now_example,
           hour = 0, minute = 0, second = 0, microsecond = 0\<rparr>
        \<longrightarrow> end' entry_day
            = \<lparr>year = year now_example, month = month now_example, day = day now_example,
               hour = hour parsed, minute = minute parsed, second = 0, microsecond = 0\<rparr>))
   \<and> strptime ''12:00 AM'' fmt_12
       = Inr \<lparr>year = 1900, month = 1, day = 1, hour = 0, minute = 0, second = 0, microsecond = 0\<rparr>
   \<and> end' entry_day
       = \<lparr>year = 2024, month = 3, day = 16, hour = 0, minute = 0, second = 0, microsecond = 0\<rparr>
   \<and> toordinal (end' entry_day) = toordinal now_example + 1
   \<and> strptime ''06:00 AM'' fmt_12
       = Inr \<lparr>year = 1900, month = 1, day = 1, hour = 6, minute = 0, second = 0, microsecond = 0\<rparr>
   \<and> end' entry_night
       = \<lparr>year = 2024, month = 3, day = 15, hour = 6, minute = 0, second = 0, microsecond = 0\<rparr>"
proof -
  have valid: "valid_datetime now_example"
    by (simp add: valid_datetime_def now_example_def days_in_month_def)
  have mem: "entry_day \<in> set [entry_night, entry_day]" by simp
  have p12: "strptime ''12:00 AM'' fmt_12
       = Inr \<lparr>year = 1900, month = 1, day = 1, hour = 0, minute = 0, second = 0, microsecond = 0\<rparr>"
    by code_simp
  have p6: "strptime ''06:00 AM'' fmt_12
       = Inr \<lparr>year = 1900, month = 1, day = 1, hour = 6, minute = 0, second = 0, microsecond = 0\<rparr>"
    by code_simp
  have d: "end' entry_day
       = \<lparr>year = 2024, month = 3, day = 16, hour = 0, minute = 0, second = 0, microsecond = 0\<rparr>"
    by (simp add: entry_day_def)
  have ord: "toordinal (end' entry_day) = toordinal now_example + 1"
    by (simp add: entry_day_def now_example_def toordinal_def days_before_month_def)
  have n: "end' entry_night
       = \<lparr>year = 2024, month = 3, day = 15, hour = 6, minute = 0, second = 0, microsecond = 0\<rparr>"
    by (simp add: entry_night_def at_time_def)
  show ?thesis
    by (intro conjI) (rule valid, rule overnight_schedule_example, rule mem,
      rule build_schedule_rollover [OF valid overnight_schedule_example mem],
      rule p12, rule d, rule ord, rule p6, rule n)
qed

lemma build_entry_iff:
  "build_entry config fmt now name = Inr e \<longleftrightarrow>
   (\<exists>start_text start_v end_text end_v.
      get config (''schedule_'' @ name) ''mode'' = Inr (mode e)
    \<and> get config (''schedule_'' @ name) ''start'' = Inr start_text
    \<and> strptime start_text fmt = Inr start_v
    \<and> get config (''schedule_'' @ name) ''end'' = Inr end_text
    \<and> strptime end_text fmt = Inr end_v
    \<and> start e = replace_date start_v now
    \<and> rollover (replace_date end_v now) now = Inr (end' e))"
proof
  assume "build_entry config fmt now name = Inr e"
  then show "\<exists>start_text start_v end_text end_v.
      get config (''schedule_'' @ name) ''mode'' = Inr (mode e)
    \<and> get config (''schedule_'' @ name) ''start'' = Inr start_text
    \<and> strptime start_text fmt = Inr start_v
    \<and> get config (''schedule_'' @ name) ''end'' = Inr end_text
    \<and> strptime end_text fmt = Inr end_v
    \<and> start e = replace_date start_v now
    \<and> rollover (replace_date end_v now) now = Inr (end' e)"
    by (rule build_entry_Inr)
next
  assume "\<exists>start_text start_v end_text end_v.
      get config (''schedule_'' @ name) ''mode'' = Inr (mode e)
    \<and> get config (''schedule_'' @ name) ''start'' = Inr start_text
    \<and> strptime start_text fmt = Inr start_v
    \<and> get config (''schedule_'' @ name) ''end'' = Inr end_text
    \<and> strptime end_text fmt = Inr end_v
    \<and> start e = replace_date start_v now
    \<and> rollover (replace_date end_v now) now = Inr (end' e)"
  then show "build_entry config fmt now name = Inr e"
    by (cases e) (auto simp: build_entry_def)
qed

lemma build_loop_complete:
  "list_all2 (\<lambda>name e. build_entry config fmt now name = Inr e) names rest \<Longrightarrow>
   build_loop config fmt now names acc = Inr (acc @ rest)"
proof (induction names arbitrary: acc rest)
  case Nil
  then show ?case by simp
next
  case (Cons name names)
  from Cons.prems obtain e r where rest: "rest = e # r"
    and e: "build_entry config fmt now name = Inr e"
    and r: "list_all2 (\<lambda>name e. build_entry config fmt now name = Inr e) names r"
    by (auto simp: list_all2_Cons1)
  from Cons.IH [OF r, of "acc @ [e]"] e rest show ?case by simp
qed

lemma build_loop_iff:
  "build_loop config fmt now names [] = Inr schedule \<longleftrightarrow>
   list_all2 (\<lambda>name e. build_entry config fmt now name = Inr e) names schedule"
  using build_loop_Inr [of config fmt now names "[]" schedule]
    build_loop_complete [of config fmt now names schedule "[]"]
  by auto

lemma build_loop_Inl:
  "build_loop config fmt now names acc = Inl err \<Longrightarrow>
   \<exists>name \<in> set names. build_entry config fmt now name = Inl err"
proof (induction names arbitrary: acc)
  case Nil
  then show ?case by simp
next
  case (Cons name names)
  show ?case
  proof (cases "build_entry config fmt now name")
    case (Inl x)
    with Cons.prems show ?thesis by simp
  next
    case (Inr e)
    with Cons.prems have "build_loop config fmt now names (acc @ [e]) = Inl err" by simp
    from Cons.IH [OF this] show ?thesis by auto
  qed
qed

lemma build_entry_Inl:
  assumes "build_entry config fmt now name = Inl err"
  shows "get config (''schedule_'' @ name) ''mode'' = Inl err
    \<or> get config (''schedule_'' @ name) ''start'' = Inl err
    \<or> (\<exists>start_text. get config (''schedule_'' @ name) ''start'' = Inr start_text
          \<and> strptime start_text fmt = Inl err)
    \<or> get config (''schedule_'' @ name) ''end'' = Inl err
    \<or> (\<exists>end_text. get config (''schedule_'' @ name) ''end'' = Inr end_text
          \<and> strptime end_text fmt = Inl err)
    \<or> (\<exists>end_text end_v. get config (''schedule_'' @ name) ''end'' = Inr end_text
          \<and> strptime end_text fmt = Inr end_v
          \<and> rollover (replace_date end_v now) now = Inl err)"
  using assms by (auto simp: build_entry_def Let_def split: sum.splits)

text \<open>
  C8. For every integer clock value, \<open>build_schedule\<close> parses the start and end strings of
  all entries in the format \<open>__fmt_24\<close> when the clock is 24 and in \<open>__fmt_12\<close> (a different
  format) when it is any other value: it returns a schedule exactly when, for every entry
  name in order, the options are present, both strings parse in that format and the
  rollover does not overflow, and the schedule is then made of these values. When it
  raises, the exception is one raised for some entry name by a lookup, by a parse in that
  format or by the rollover: none comes from the clock value.
\<close>

theorem build_schedule_clock_format:
  assumes "get config ''schedule'' ''entries'' = Inr entries"
    and "getint config ''schedule'' ''clock'' = Inr clock_type"
  shows "fmt_24 \<noteq> fmt_12
   \<and> (build_schedule config now = Inr schedule \<longleftrightarrow>
        list_all2
          (\<lambda>name e. \<exists>start_text start_v end_text end_v.
              get config (''schedule_'' @ name) ''mode'' = Inr (mode e)
            \<and> get config (''schedule_'' @ name) ''start'' = Inr start_text
            \<and> strptime start_text (if clock_type = 24 then fmt_24 else fmt_12) = Inr start_v
            \<and> get config (''schedule_'' @ name) ''end'' = Inr end_text
            \<and> strptime end_text (if clock_type = 24 then fmt_24 else fmt_12) = Inr end_v
            \<and> start e = replace_date start_v now
            \<and> rollover (replace_date end_v now) now = Inr (end' e))
          (entry_names (strip entries)) schedule)
   \<and> (\<forall>err. build_schedule config now = Inl err \<longrightarrow>
        (\<exists>name \<in> set (entry_names (strip entries)).
            get config (''schedule_'' @ name) ''mode'' = Inl err
          \<or> get config (''schedule_'' @ name) ''start'' = Inl err
          \<or> (\<exists>start_text. get config (''schedule_'' @ name) ''start'' = Inr start_text
                \<and> strptime start_text (if clock_type = 24 then fmt_24 else fmt_12) = Inl err)
          \<or> get config (''schedule_'' @ name) ''end'' = Inl err
          \<or> (\<exists>end_text. get config (''schedule_'' @ name) ''end'' = Inr end_text
                \<and> strptime end_text (if clock_type = 24 then fmt_24 else fmt_12) = Inl err)
          \<or> (\<exists>end_text end_v. get config (''schedule_'' @ name) ''end'' = Inr end_text
                \<and> strptime end_text (if clock_type = 24 then fmt_24 else fmt_12) = Inr end_v
                \<and> rollover (replace_date end_v now) now = Inl err)))"
proof -
  let ?fmt = "if clock_type = 24 then fmt_24 else fmt_12"
  let ?names = "entry_names (strip entries)"
  have b: "build_schedule config now = build_loop config ?fmt now ?names []"
    by (simp add: build_schedule_def assms select_fmt_def)
  have ok: "build_schedule config now = Inr schedule \<longleftrightarrow>
      list_all2 (\<lambda>name e. build_entry config ?fmt now name = Inr e) ?names schedule"
    unfolding b by (rule build_loop_iff)
  have failed: "\<exists>name \<in> set ?names. build_entry config ?fmt now name = Inl err"
    if "build_schedule config now = Inl err" for err
    using that unfolding b by (rule build_loop_Inl)
  show ?thesis
  proof (intro conjI allI impI)
    show "fmt_24 \<noteq> fmt_12" by (rule fmt_distinct)
  next
    show "build_schedule config now = Inr schedule \<longleftrightarrow>
        list_all2
          (\<lambda>name e. \<exists>start_text start_v end_text end_v.
              get config (''schedule_'' @ name) ''mode'' = Inr (mode e)
            \<and> get config (''schedule_'' @ name) ''start'' = Inr start_text
            \<and> strptime start_text ?fmt = Inr start_v
            \<and> get config (''schedule_'' @ name) ''end'' = Inr end_text
            \<and> strptime end_text ?fmt = Inr end_v
            \<and> start e = replace_date start_v now
            \<and> rollover (replace_date end_v now) now = Inr (end' e))
          ?names schedule"
      unfolding ok build_entry_iff by (rule refl)
  next
    fix err
    assume "build_schedule config now = Inl err"
    from failed [OF this] obtain name where n: "name \<in> set ?names"
      and e: "build_entry config ?fmt now name = Inl err"
      by blast
    from build_entry_Inl [OF e] n
    show "\<exists>name \<in> set ?names.
            get config (''schedule_'' @ name) ''mode'' = Inl err
          \<or> get config (''schedule_'' @ name) ''start'' = Inl err
          \<or> (\<exists>start_text. get config (''schedule_'' @ name) ''start'' = Inr start_text
                \<and> strptime start_text ?fmt = Inl err)
          \<or> get config (''schedule_'' @ name) ''end'' = Inl err
          \<or> (\<exists>end_text. get config (''schedule_'' @ name) ''end'' = Inr end_text
                \<and> strptime end_text ?fmt = Inl err)
          \<or> (\<exists>end_text end_v. get config (''schedule_'' @ name) ''end'' = Inr end_text
                \<and> strptime end_text ?fmt = Inr end_v
                \<and> rollover (replace_date end_v now) now = Inl err)"
      by (rule bexI)
  qed
qed

lemma overnight_clock7:
  "build_schedule (config_of overnight_options 7) (at_time 12 30) = Inr [entry_night, entry_day]"
  by code_simp

lemma overnight_clock24:
  "build_schedule (config_of overnight_options 24) (at_time 12 30) = Inl ValueError"
  by code_simp

lemma work_clock24:
  "build_schedule (config_of clock24_options 24) (at_time 12 30)
     = Inr [\<lparr>mode = ''armed'', start = at_time 9 0, end' = at_time 17 0\<rparr>]"
  by code_simp

lemma work_clock7:
  "build_schedule (config_of clock24_options 7) (at_time 12 30) = Inl ValueError"
  by code_simp

theorem build_schedule_clock_format_witness:
  "get (config_of overnight_options 7) ''schedule'' ''entries'' = Inr ''night, day''
   \<and> getint (config_of overnight_options 7) ''schedule'' ''clock'' = Inr 7
   \<and> build_schedule (config_of overnight_options 7) (at_time 12 30) = Inr [entry_night, entry_day]
   \<and> list_all2
        (\<lambda>name e. \<exists>start_text start_v end_text end_v.
            get (config_of overnight_options 7) (''schedule_'' @ name) ''mode'' = Inr (mode e)
          \<and> get (config_of overnight_options 7) (''schedule_'' @ name) ''start'' = Inr start_text
          \<and> strptime start_text (if (7::int) = 24 then fmt_24 else fmt_12) = Inr start_v
          \<and> get (config_of overnight_options 7) (''schedule_'' @ name) ''end'' = Inr end_text
          \<and> strptime end_text (if (7::int) = 24 then fmt_24 else fmt_12) = Inr end_v
          \<and> start e = replace_date start_v (at_time 12 30)
          \<and> rollover (replace_date end_v (at_time 12 30)) (at_time 12 30) = Inr (end' e))
        (entry_names (strip ''night, day'')) [entry_night, entry_day]
   \<and> get (config_of overnight_options 24) ''schedule'' ''entries'' = Inr ''night, day''
   \<and> getint (config_of overnight_options 24) ''schedule'' ''clock'' = Inr 24
   \<and> build_schedule (config_of overnight_options 24) (at_time 12 30) = Inl ValueError
   \<and> strptime ''10:00 PM'' fmt_24 = Inl ValueError
   \<and> get (config_of clock24_options 24) ''schedule'' ''entries'' = Inr ''work''
   \<and> getint (config_of clock24_options 24) ''schedule'' ''clock'' = Inr 24
   \<and> build_schedule (config_of clock24_options 24) (at_time 12 30)
       = Inr [\<lparr>mode = ''armed'', start = at_time 9 0, end' = at_time 17 0\<rparr>]
   \<and> list_all2
        (\<lambda>name e. \<exists>start_text start_v end_text end_v.
            get (config_of clock24_options 24) (''schedule_'' @ name) ''mode'' = Inr (mode e)
          \<and> get (config_of clock24_options 24) (''schedule_'' @ name) ''start'' = Inr start_text
          \<and> strptime start_text (if (24::int) = 24 then fmt_24 else fmt_12) = Inr start_v
          \<and> get (config_of clock24_options 24) (''schedule_'' @ name) ''end'' = Inr end_text
          \<and> strptime end_text (if (24::int) = 24 then fmt_24 else fmt_12) = Inr end_v
          \<and> start e = replace_date start_v (at_time 12 30)
          \<and> rollover (replace_date end_v (at_time 12 30)) (at_time 12 30) = Inr (end' e))
        (entry_names (strip ''work''))
        [\<lparr>mode = ''armed'', start = at_time 9 0, end' = at_time 17 0\<rparr>]
   \<and> build_schedule (config_of clock24_options 7) (at_time 12 30) = Inl ValueError
   \<and> strptime ''09:05'' fmt_12 = Inl ValueError"
proof -
  have a1: "get (config_of overnight_options 7) ''schedule'' ''entries'' = Inr ''night, day''"
    by (simp add: config_of_def overnight_options_def)
  have a2: "getint (config_of overnight_options 7) ''schedule'' ''clock'' = Inr 7"
    by (simp add: config_of_def)
  have c1: "get (config_of overnight_options 24) ''schedule'' ''entries'' = Inr ''night, day''"
    by (simp add: config_of_def overnight_options_def)
  have c2: "getint (config_of overnight_options 24) ''schedule'' ''clock'' = Inr 24"
    by (simp add: config_of_def)
  have b1: "get (config_of clock24_options 24) ''schedule'' ''entries'' = Inr ''work''"
    by (simp add: config_of_def clock24_options_def)
  have b2: "getint (config_of clock24_options 24) ''schedule'' ''clock'' = Inr 24"
    by (simp add: config_of_def)
  have p1: "strptime ''10:00 PM'' fmt_24 = Inl ValueError" by code_simp
  have p2: "strptime ''09:05'' fmt_12 = Inl ValueError" by code_simp
  note ta = build_schedule_clock_format [OF a1 a2, of "at_time 12 30" "[entry_night, entry_day]"]
  note tb = build_schedule_clock_format [OF b1 b2, of "at_time 12 30"
      "[\<lparr>mode = ''armed'', start = at_time 9 0, end' = at_time 17 0\<rparr>]"]
  show ?thesis
    by (intro conjI) (rule a1, rule a2, rule overnight_clock7,
      rule ta [THEN conjunct2, THEN conjunct1, THEN iffD1, OF overnight_clock7],
      rule c1, rule c2, rule overnight_clock24, rule p1,
      rule b1, rule b2, rule work_clock24,
      rule tb [THEN conjunct2, THEN conjunct1, THEN iffD1, OF work_clock24],
      rule work_clock7, rule p2)
qed

text \<open>
  C2. With \<open>clock = 24\<close> the format is \<open>'%H:%m'\<close>, whose second directive is the month
  and not the minute: \<open>"09:05"\<close> parses to hour 9, month 5 and minute 0, so a schedule with
  start 09:05 and end 17:10 is built as 09:00 to 17:00; and \<open>"09:30"\<close> does not parse at
  all (\<open>ValueError\<close>), since 30 is no month.
\<close>

theorem build_schedule_clock24_minutes:
  "strptime ''09:05'' fmt_24
     = Inr \<lparr>year = 1900, month = 5, day = 1, hour = 9, minute = 0, second = 0, microsecond = 0\<rparr>
   \<and> build_schedule config_clock24 (at_time 12 30)
     = Inr [\<lparr>mode = ''armed'', start = at_time 9 0, end' = at_time 17 0\<rparr>]
   \<and> strptime ''09:30'' fmt_24 = Inl ValueError
   \<and> build_schedule config_half_past (at_time 12 30) = Inl ValueError"
  by code_simp

section \<open>Properties of find\_entry\<close>

lemma find_entry_loop_append:
  "find_entry_loop (xs @ ys) now found = find_entry_loop ys now (find_entry_loop xs now found)"
  by (induction xs arbitrary: found) simp_all

lemma find_entry_loop_none_active:
  "\<forall>e \<in> set ys. \<not> (dt_le (start e) now \<and> dt_less now (end' e)) \<Longrightarrow>
   find_entry_loop ys now found = found"
  by (induction ys arbitrary: found) auto

lemma find_entry_loop_Some:
  "find_entry_loop xs now found = Some e \<Longrightarrow>
   found = Some e \<or> (e \<in> set xs \<and> dt_le (start e) now \<and> dt_less now (end' e))"
proof (induction xs arbitrary: found)
  case Nil
  then show ?case by simp
next
  case (Cons x xs)
  from Cons.IH [OF Cons.prems [simplified]] show ?case
    by (auto split: if_splits)
qed

lemma find_entry_loop_None:
  "find_entry_loop xs now found = None \<longleftrightarrow>
   found = None \<and> (\<forall>e \<in> set xs. \<not> (dt_le (start e) now \<and> dt_less now (end' e)))"
  by (induction xs arbitrary: found) auto

lemma find_entry_Inr_D:
  "find_entry schedule now = Inr e \<Longrightarrow>
   e \<in> set schedule \<and> dt_le (start e) now \<and> dt_less now (end' e)"
  using find_entry_loop_Some [of schedule now None e]
  by (auto simp: find_entry_def split: option.splits)

lemma find_entry_split:
  assumes "dt_le (start e) now" "dt_less now (end' e)"
    and "\<forall>y \<in> set ys. \<not> (dt_le (start y) now \<and> dt_less now (end' y))"
  shows "find_entry (xs @ e # ys) now = Inr e"
proof -
  have "find_entry_loop (xs @ e # ys) now None = find_entry_loop (e # ys) now (find_entry_loop xs now None)"
    by (rule find_entry_loop_append)
  also have "\<dots> = find_entry_loop ys now (Some e)"
    using assms(1,2) by simp
  also have "\<dots> = Some e"
    using assms(3) by (rule find_entry_loop_none_active)
  finally show ?thesis by (simp add: find_entry_def)
qed



text \<open>
  C4. When several entries contain \<open>now\<close>, the one declared last is returned: the loop
  runs over the whole schedule, so an entry containing \<open>now\<close> that is followed only by
  entries not containing it is the result, whatever precedes it; this entry is the last
  element of the entries containing \<open>now\<close>, taken in schedule order.
\<close>

theorem find_entry_last_match:
  "(dt_le (start e) now \<and> dt_less now (end' e)
      \<and> (\<forall>y \<in> set ys. \<not> (dt_le (start y) now \<and> dt_less now (end' y)))
     \<longrightarrow> find_entry (xs @ e # ys) now = Inr e)
   \<and> (filter (\<lambda>e. dt_le (start e) now \<and> dt_less now (end' e)) schedule \<noteq> []
     \<longrightarrow> find_entry schedule now =
          Inr (last (filter (\<lambda>e. dt_le (start e) now \<and> dt_less now (end' e)) schedule)))"
proof -
  let ?P = "\<lambda>e. dt_le (start e) now \<and> dt_less now (end' e)"
  have positional: "find_entry (xs @ e # ys) now = Inr e"
    if "?P e \<and> (\<forall>y \<in> set ys. \<not> ?P y)"
    using that by (simp add: find_entry_split)
  have loop: "find_entry_loop zs now found =
      (if filter ?P zs = [] then found else Some (last (filter ?P zs)))" for zs found
    by (induction zs arbitrary: found) simp_all
  have filtered: "find_entry schedule now = Inr (last (filter ?P schedule))"
    if "filter ?P schedule \<noteq> []"
    using that by (simp add: find_entry_def loop)
  from positional filtered show ?thesis by blast
qed

theorem find_entry_last_match_witness:
  "dt_le (start entry_A) (at_time 12 30) \<and> dt_less (at_time 12 30) (end' entry_A)
   \<and> dt_le (start entry_B) (at_time 12 30) \<and> dt_less (at_time 12 30) (end' entry_B)
   \<and> find_entry [entry_A, entry_B] (at_time 12 30) = Inr entry_B
   \<and> find_entry [entry_B, entry_A] (at_time 12 30) = Inr entry_A"
  using find_entry_last_match [of entry_B "at_time 12 30" "[]" "[entry_A]" "[entry_A, entry_B]"]
        find_entry_last_match [of entry_A "at_time 12 30" "[]" "[entry_B]" "[entry_B, entry_A]"]
  by (simp add: entry_A_def entry_B_def at_time_def dt_le_def dt_less_def dt_key_def)

text \<open>
  C5. \<open>find_entry\<close> raises \<open>RuntimeError('Entry not found.')\<close> exactly when no entry of
  the schedule contains \<open>now\<close>, and returns an entry exactly when some entry contains
  \<open>now\<close>; the entry returned is then one that contains \<open>now\<close>, never another one.
\<close>

theorem find_entry_fails_iff_none_active:
  "(find_entry schedule now = Inl (RuntimeError ''Entry not found.'')
      \<longleftrightarrow> (\<forall>e \<in> set schedule. \<not> (dt_le (start e) now \<and> dt_less now (end' e))))
   \<and> ((\<exists>r. find_entry schedule now = Inr r)
      \<longleftrightarrow> (\<exists>e \<in> set schedule. dt_le (start e) now \<and> dt_less now (end' e)))
   \<and> (\<forall>r. find_entry schedule now = Inr r
      \<longrightarrow> r \<in> set schedule \<and> dt_le (start r) now \<and> dt_less now (end' r))"
proof -
  let ?P = "\<lambda>e. dt_le (start e) now \<and> dt_less now (end' e)"
  have none: "find_entry_loop schedule now None = None \<longleftrightarrow> (\<forall>e \<in> set schedule. \<not> ?P e)"
    by (simp add: find_entry_loop_None)
  have fails: "find_entry schedule now = Inl (RuntimeError ''Entry not found.'')
      \<longleftrightarrow> (\<forall>e \<in> set schedule. \<not> ?P e)"
    using none by (cases "find_entry_loop schedule now None") (simp_all add: find_entry_def)
  have succeeds: "(\<exists>r. find_entry schedule now = Inr r) \<longleftrightarrow> (\<exists>e \<in> set schedule. ?P e)"
    using none by (cases "find_entry_loop schedule now None") (simp_all add: find_entry_def)
  have returned: "\<forall>r. find_entry schedule now = Inr r \<longrightarrow> r \<in> set schedule \<and> ?P r"
    using find_entry_Inr_D by blast
  from fails succeeds returned show ?thesis by blast
qed

theorem find_entry_fails_iff_none_active_witness:
  "\<not> (dt_le (start entry_morning) (at_time 12 30) \<and> dt_less (at_time 12 30) (end' entry_morning))
   \<and> \<not> (dt_le (start entry_afternoon) (at_time 12 30) \<and> dt_less (at_time 12 30) (end' entry_afternoon))
   \<and> find_entry [entry_morning, entry_afternoon] (at_time 12 30) = Inl (RuntimeError ''Entry not found.'')
   \<and> (\<exists>e \<in> set [entry_morning, entry_afternoon].
       dt_le (start e) (at_time 8 0) \<and> dt_less (at_time 8 0) (end' e))
   \<and> find_entry [entry_morning, entry_afternoon] (at_time 8 0) = Inr entry_morning"
  using find_entry_fails_iff_none_active [of "[entry_morning, entry_afternoon]" "at_time 12 30"]
        find_entry_fails_iff_none_active [of "[entry_morning, entry_afternoon]" "at_time 8 0"]
  by (simp add: find_entry_def entry_morning_def entry_afternoon_def at_time_def
      dt_le_def dt_less_def dt_key_def)

text \<open>
  C10. On the empty schedule \<open>find_entry\<close> raises \<open>RuntimeError('Entry not found.')\<close>
  at every instant.
\<close>

theorem find_entry_empty_schedule:
  "find_entry [] now = Inl (RuntimeError ''Entry not found.'')"
  by (simp add: find_entry_def)

section \<open>Properties of the list splitting and of check\_station\_mode\<close>

text \<open>
  C7. The list of entry names and the list of recipients are built the same way: a string
  without a comma gives the one-element list of the string itself, untrimmed; a string
  with a comma gives the pieces between the commas, each trimmed. The pieces joined by
  commas are the string, there is one more piece than commas, no piece contains a comma,
  and trimming removes exactly a whitespace prefix and a whitespace suffix, leaving a
  string that neither starts nor ends with whitespace.
\<close>

theorem list_splitting:
  "(CHR '','' \<notin> set s \<longrightarrow> entry_names s = [s] \<and> recipient_list s = [s])
   \<and> (CHR '','' \<in> set s \<longrightarrow>
        entry_names s = map strip (split s CHR '','')
      \<and> recipient_list s = map strip (split s CHR '','')
      \<and> length (entry_names s) = Suc (count_list s CHR '','')
      \<and> length (recipient_list s) = Suc (count_list s CHR '',''))
   \<and> join '','' (split s CHR '','') = s
   \<and> (\<forall>p \<in> set (split s CHR '',''). CHR '','' \<notin> set p)
   \<and> (\<forall>p. \<exists>l r. p = l @ strip p @ r \<and> list_all isspace l \<and> list_all isspace r
          \<and> (strip p = [] \<or> \<not> isspace (hd (strip p)) \<and> \<not> isspace (last (strip p))))"
proof -
  have single: "entry_names s = [s] \<and> recipient_list s = [s]" if "CHR '','' \<notin> set s"
    using that by (simp add: entry_names_def recipient_list_def)
  have several: "entry_names s = map strip (split s CHR '','')
      \<and> recipient_list s = map strip (split s CHR '','')
      \<and> length (entry_names s) = Suc (count_list s CHR '','')
      \<and> length (recipient_list s) = Suc (count_list s CHR '','')" if "CHR '','' \<in> set s"
    using that by (simp add: entry_names_def recipient_list_def length_split)
  have joined: "join '','' (split s CHR '','') = s"
    by (rule join_split)
  have pieces: "\<forall>p \<in> set (split s CHR '',''). CHR '','' \<notin> set p"
    using split_no_sep by blast
  have trimmed: "\<forall>p. \<exists>l r. p = l @ strip p @ r \<and> list_all isspace l \<and> list_all isspace r
          \<and> (strip p = [] \<or> \<not> isspace (hd (strip p)) \<and> \<not> isspace (last (strip p)))"
    using strip_decompose strip_ends by blast
  from single several joined pieces trimmed show ?thesis by blast
qed

theorem list_splitting_witness:
  "CHR '','' \<notin> set ''a'' \<and> entry_names ''a'' = [''a''] \<and> recipient_list ''a'' = [''a'']
   \<and> CHR '','' \<in> set ''a, b'' \<and> entry_names ''a, b'' = [''a'', ''b'']
   \<and> recipient_list ''a, b'' = [''a'', ''b'']
   \<and> entry_names '' a '' = ['' a '']
   \<and> split ''a, b'' CHR '','' = [''a'', '' b'']"
proof -
  have no: "CHR '','' \<notin> set ''a''" by simp
  have no': "CHR '','' \<notin> set '' a ''" by simp
  have yes: "CHR '','' \<in> set ''a, b''" by simp
  have sp: "split ''a, b'' CHR '','' = [''a'', '' b'']" by simp
  have st: "map strip [''a'', '' b''] = [''a'', ''b'']"
    by (simp add: strip_def lstrip_def rstrip_def isspace_def)
  from list_splitting [of "''a''"] no
  have a: "entry_names ''a'' = [''a''] \<and> recipient_list ''a'' = [''a'']" by blast
  from list_splitting [of "'' a ''"] no'
  have a': "entry_names '' a '' = ['' a '']" by blast
  from list_splitting [of "''a, b''"] yes
  have "entry_names ''a, b'' = map strip (split ''a, b'' CHR '','')
      \<and> recipient_list ''a, b'' = map strip (split ''a, b'' CHR '','')" by blast
  then have b: "entry_names ''a, b'' = [''a'', ''b''] \<and> recipient_list ''a, b'' = [''a'', ''b'']"
    by (simp only: sp st)
  from no yes a a' b sp show ?thesis by blast
qed


lemma check_equal_example:
  "check_station_mode smtp_ok (entry_of_mode ''Armed'') ''armed'' ''me@example.org''
     [''you@example.org''] = ([], None)"
  by code_simp




end
